theory Spec2Isabelle
  imports Complex_Main "HOL-Library.Sublist"
begin

section \<open>Strings\<close>

text \<open>
  A JavaScript string is a sequence of UTF-16 code units.  A code unit is modelled as a
  natural number and a string as a list of them; \<open>js\<close> turns a literal into such a
  list, so that \<open>js ''rust''\<close> is the string \<^verbatim>\<open>'rust'\<close> of the source.
\<close>

type_synonym jsstring = "nat list"

definition js :: "string \<Rightarrow> jsstring" where
  "js s = map of_char s"

text \<open>
  The class \<^verbatim>\<open>\s\<close> of a regular expression and the characters removed by
  \<^verbatim>\<open>trim()\<close> are the same set: the white space and line terminator code points of
  ECMAScript.
\<close>

definition is_space :: "nat \<Rightarrow> bool" where
  "is_space c = (c = 0x09 \<or> c = 0x0A \<or> c = 0x0B \<or> c = 0x0C \<or> c = 0x0D \<or> c = 0x20
     \<or> c = 0xA0 \<or> c = 0x1680 \<or> (0x2000 \<le> c \<and> c \<le> 0x200A) \<or> c = 0x2028 \<or> c = 0x2029
     \<or> c = 0x202F \<or> c = 0x205F \<or> c = 0x3000 \<or> c = 0xFEFF)"

text \<open>The class \<^verbatim>\<open>[a-z0-9]\<close>.\<close>

definition is_alnum :: "nat \<Rightarrow> bool" where
  "is_alnum c = ((0x61 \<le> c \<and> c \<le> 0x7A) \<or> (0x30 \<le> c \<and> c \<le> 0x39))"

text \<open>The class \<^verbatim>\<open>[_\-\.]\<close>.\<close>

definition is_sep :: "nat \<Rightarrow> bool" where
  "is_sep c = (c = 0x5F \<or> c = 0x2D \<or> c = 0x2E)"

text \<open>
  \<^verbatim>\<open>toLowerCase()\<close>.  The letters A to Z go to a to z.  Of the other code units,
  only U+0130 (which becomes \<open>i\<close> followed by U+0307) and U+212A, the Kelvin sign (which
  becomes \<open>k\<close>), have a lower case with a character of \<^verbatim>\<open>[a-z0-9_\-\.\s]\<close> in it,
  and no character of that class is changed.  The code units that \<^verbatim>\<open>toLowerCase()\<close>
  maps elsewhere (the upper case letters beyond ASCII) are left as they are here: the
  lower-cased text is only read by replacements that delete them, changed or not, so
  \<open>normalized\<close>, \<open>compact\<close> and \<open>tokens\<close> are those of the source.
\<close>

definition lower_unit :: "nat \<Rightarrow> jsstring" where
  "lower_unit c =
     (if 0x41 \<le> c \<and> c \<le> 0x5A then [c + 0x20]
      else if c = 0x130 then [0x69, 0x307]
      else if c = 0x212A then [0x6B]
      else [c])"

definition toLowerCase :: "jsstring \<Rightarrow> jsstring" where
  "toLowerCase s = concat (map lower_unit s)"

text \<open>\<^verbatim>\<open>trim()\<close>: white space is removed at both ends.\<close>

definition trim :: "jsstring \<Rightarrow> jsstring" where
  "trim s = rev (dropWhile is_space (rev (dropWhile is_space s)))"

text \<open>\<^verbatim>\<open>s.includes(k)\<close> on strings: \<open>k\<close> occurs in \<open>s\<close> as a substring.\<close>

fun str_includes :: "jsstring \<Rightarrow> jsstring \<Rightarrow> bool" where
  "str_includes [] k = (k = [])"
| "str_includes (c # cs) k = (prefix k (c # cs) \<or> str_includes cs k)"

text \<open>
  \<^verbatim>\<open>replace(/[_\-\.]+/g, ' ')\<close>: every maximal run of separators becomes one space.
\<close>

function replace_seps :: "jsstring \<Rightarrow> jsstring" where
  "replace_seps [] = []"
| "replace_seps (c # cs) =
     (if is_sep c then 0x20 # replace_seps (dropWhile is_sep cs) else c # replace_seps cs)"
  by pat_completeness auto
termination
  by (relation "measure length") (auto simp: less_Suc_eq_le length_dropWhile_le)

text \<open>
  \<^verbatim>\<open>split(/\s+/)\<close>: the pieces between the maximal runs of white space, the empty
  pieces at the ends included; the empty string gives one empty piece.
\<close>

function split_ws :: "jsstring \<Rightarrow> jsstring list" where
  "split_ws s =
     (let tok = takeWhile (\<lambda>c. \<not> is_space c) s;
          rest = dropWhile (\<lambda>c. \<not> is_space c) s
      in if rest = [] then [tok] else tok # split_ws (dropWhile is_space rest))"
  by pat_completeness auto
termination
proof (relation "measure length", goal_cases)
  case 1
  show ?case by simp
next
  case (2 s tok rest)
  from 2 have ne: "dropWhile (\<lambda>c. \<not> is_space c) s \<noteq> []"
    by simp
  from hd_dropWhile [OF ne] have sp: "is_space (hd rest)"
    using 2 by simp
  from 2 ne have rest: "rest = hd rest # tl rest"
    by simp
  have "dropWhile is_space rest = dropWhile is_space (tl rest)"
    by (subst rest) (simp add: sp)
  then have "length (dropWhile is_space rest) \<le> length (tl rest)"
    by (simp only: length_dropWhile_le)
  moreover have "length (tl rest) < length rest"
    using ne 2 by (cases rest) simp_all
  moreover have "length rest \<le> length s"
    using 2 by (simp add: length_dropWhile_le)
  ultimately show ?case
    by simp
qed

declare split_ws.simps [simp del]

section \<open>Library functions used by the normalizer\<close>

text \<open>
  \<^verbatim>\<open>path.basename\<close> of Node.js, in its POSIX form: scanning from the end, the slashes at
  the end are skipped, and the result is what lies between them and the next slash.
\<close>

definition basename :: "jsstring \<Rightarrow> jsstring" where
  "basename p = rev (takeWhile (\<lambda>c. c \<noteq> 0x2F) (dropWhile (\<lambda>c. c = 0x2F) (rev p)))"

text \<open>
  \<^verbatim>\<open>decodeURIComponent\<close>, following the Decode operation of ECMAScript.  \<open>None\<close> is
  the URIError.  A percent sign must be followed by two hexadecimal digits; an octet below
  0x80 stands for itself; an octet that starts a UTF-8 sequence of two to four octets must
  be followed by the escaped continuation octets, and the sequence must be a valid UTF-8
  encoding of a code point, which is appended as one or two UTF-16 code units.
\<close>

definition hex_digit :: "nat \<Rightarrow> nat option" where
  "hex_digit c =
     (if 0x30 \<le> c \<and> c \<le> 0x39 then Some (c - 0x30)
      else if 0x41 \<le> c \<and> c \<le> 0x46 then Some (c - 0x41 + 10)
      else if 0x61 \<le> c \<and> c \<le> 0x66 then Some (c - 0x61 + 10)
      else None)"

definition ParseHexOctet :: "nat \<Rightarrow> nat \<Rightarrow> nat option" where
  "ParseHexOctet h1 h2 =
     (case hex_digit h1 of None \<Rightarrow> None
      | Some a \<Rightarrow> (case hex_digit h2 of None \<Rightarrow> None | Some b \<Rightarrow> Some (16 * a + b)))"

text \<open>The number of leading 1 bits of an octet.\<close>

definition leading_ones :: "nat \<Rightarrow> nat" where
  "leading_ones b =
     (if b < 0x80 then 0 else if b < 0xC0 then 1 else if b < 0xE0 then 2
      else if b < 0xF0 then 3 else if b < 0xF8 then 4 else 5)"

definition is_cont :: "nat \<Rightarrow> bool" where
  "is_cont b = (0x80 \<le> b \<and> b < 0xC0)"

text \<open>
  The code point of a UTF-8 sequence of two to four octets; \<open>None\<close> when the sequence is
  not valid (a continuation octet out of range, an overlong form, a surrogate, or a value
  above U+10FFFF).
\<close>

definition utf8_code_point :: "nat list \<Rightarrow> nat option" where
  "utf8_code_point octs =
     (case octs of
        [b0, b1] \<Rightarrow>
          (let v = (b0 - 0xC0) * 64 + (b1 - 0x80)
           in if is_cont b1 \<and> 0x80 \<le> v then Some v else None)
      | [b0, b1, b2] \<Rightarrow>
          (let v = (b0 - 0xE0) * 4096 + (b1 - 0x80) * 64 + (b2 - 0x80)
           in if is_cont b1 \<and> is_cont b2 \<and> 0x800 \<le> v \<and> \<not> (0xD800 \<le> v \<and> v \<le> 0xDFFF)
              then Some v else None)
      | [b0, b1, b2, b3] \<Rightarrow>
          (let v = (b0 - 0xF0) * 262144 + (b1 - 0x80) * 4096 + (b2 - 0x80) * 64 + (b3 - 0x80)
           in if is_cont b1 \<and> is_cont b2 \<and> is_cont b3 \<and> 0x10000 \<le> v \<and> v \<le> 0x10FFFF
              then Some v else None)
      | _ \<Rightarrow> None)"

definition UTF16EncodeCodePoint :: "nat \<Rightarrow> jsstring" where
  "UTF16EncodeCodePoint v =
     (if v < 0x10000 then [v]
      else [0xD800 + (v - 0x10000) div 1024, 0xDC00 + (v - 0x10000) mod 1024])"

text \<open>
  The first argument is the number of continuation octets still expected, the second the
  octets of the sequence read so far.
\<close>

fun Decode :: "nat \<Rightarrow> nat list \<Rightarrow> jsstring \<Rightarrow> jsstring option" where
  "Decode pend octs [] = (if pend = 0 then Some [] else None)"
| "Decode pend octs (c # cs) =
     (if c \<noteq> 0x25 then
        (if pend = 0 then map_option ((#) c) (Decode 0 [] cs) else None)
      else
        (case cs of
           h1 # h2 # rest \<Rightarrow>
             (case ParseHexOctet h1 h2 of
                None \<Rightarrow> None
              | Some b \<Rightarrow>
                  if pend = 0 then
                    (let n = leading_ones b
                     in if n = 0 then map_option ((#) b) (Decode 0 [] rest)
                        else if n = 1 \<or> 4 < n then None
                        else Decode (n - 1) [b] rest)
                  else if pend = 1 then
                    (case utf8_code_point (octs @ [b]) of
                       None \<Rightarrow> None
                     | Some v \<Rightarrow> map_option ((@) (UTF16EncodeCodePoint v)) (Decode 0 [] rest))
                  else Decode (pend - 1) (octs @ [b]) rest)
         | _ \<Rightarrow> None))"

definition decodeURIComponent :: "jsstring \<Rightarrow> jsstring option" where
  "decodeURIComponent s = Decode 0 [] s"

section \<open>The normalizer\<close>

text \<open>The result of \<open>normalizeName\<close>; the field \<open>compact_s\<close> is \<open>compact\<close>.\<close>

record NormalizedName =
  base :: jsstring
  normalized :: jsstring
  compact_s :: jsstring
  tokens :: "jsstring list"

text \<open>
  The chain \<^verbatim>\<open>toLowerCase().replace(/[_\-\.]+/g, ' ').replace(/[^a-z0-9\s]+/g, '').trim()\<close>.
\<close>

definition normalize_text :: "jsstring \<Rightarrow> jsstring" where
  "normalize_text b =
     trim (filter (\<lambda>c. is_alnum c \<or> is_space c) (replace_seps (toLowerCase b)))"

text \<open>
  \<open>normalizeName\<close>.  The argument \<open>None\<close> is a \<^verbatim>\<open>null\<close> or \<^verbatim>\<open>undefined\<close> file
  name, which \<^verbatim>\<open>!raw\<close> treats like the empty string.  \<^verbatim>\<open>raw.split('?')[0]\<close> is the text
  before the first question mark, and likewise for \<^verbatim>\<open>'#'\<close>.  Neither \<^verbatim>\<open>split\<close> nor
  \<^verbatim>\<open>path.basename\<close> throws on a string, so the first \<^verbatim>\<open>catch\<close> is never entered; the
  second keeps \<open>base\<close> when \<^verbatim>\<open>decodeURIComponent\<close> throws.
\<close>

definition normalizeName :: "jsstring option \<Rightarrow> NormalizedName" where
  "normalizeName raw_opt =
     (case raw_opt of
        None \<Rightarrow> \<lparr>base = [], normalized = [], compact_s = [], tokens = []\<rparr>
      | Some raw \<Rightarrow>
          if raw = [] then \<lparr>base = [], normalized = [], compact_s = [], tokens = []\<rparr>
          else
            (let base0 = basename (takeWhile (\<lambda>c. c \<noteq> 0x23) (takeWhile (\<lambda>c. c \<noteq> 0x3F) raw));
                 base1 = (case decodeURIComponent base0 of None \<Rightarrow> base0 | Some d \<Rightarrow> d);
                 normalized1 = normalize_text base1;
                 compact1 = filter (\<lambda>c. \<not> is_space c) normalized1;
                 tokens1 = filter (\<lambda>t. t \<noteq> []) (split_ws normalized1)
             in \<lparr>base = base1, normalized = normalized1, compact_s = compact1, tokens = tokens1\<rparr>))"

section \<open>The configuration tables\<close>

text \<open>
  The categories are the five strings that are the keys of every table of the source.
  With a datatype for them each table is a total function, and the fallbacks of the source
  for a key that a table lacks (\<^verbatim>\<open>?? this.diseaseInfo['Healthy']\<close>) have no case to
  cover.  \<open>diseaseClasses\<close> and \<open>priority\<close> keep the order of the source.
\<close>

datatype Disease = AloeRust | Healthy | Anthracnose | LeafSpot | Sunburn

text \<open>The strings that name the categories in the source.\<close>

fun disease_name :: "Disease \<Rightarrow> string" where
  "disease_name AloeRust = ''Aloe Rust''"
| "disease_name Healthy = ''Healthy''"
| "disease_name Anthracnose = ''Anthracnose''"
| "disease_name LeafSpot = ''Leaf Spot''"
| "disease_name Sunburn = ''Sunburn''"

definition diseaseClasses :: "Disease list" where
  "diseaseClasses = [AloeRust, Healthy, Anthracnose, LeafSpot, Sunburn]"

datatype Severity = Low | Moderate | High

record DiseaseInfo =
  info_description :: string
  info_treatment :: string
  info_severity :: "Severity option"

fun diseaseInfo :: "Disease \<Rightarrow> DiseaseInfo" where
  "diseaseInfo Healthy =
     \<lparr>info_description = ''Your Aloe Vera plant appears healthy with no visible signs of disease.'',
      info_treatment = ''Continue your current care routine. Maintain proper watering and lighting.'',
      info_severity = None\<rparr>"
| "diseaseInfo LeafSpot =
     \<lparr>info_description = ''Fungal infection causing circular brown or black spots on leaves.'',
      info_treatment = ''Remove affected leaves, improve air circulation, apply fungicide, reduce watering frequency.'',
      info_severity = Some Moderate\<rparr>"
| "diseaseInfo AloeRust =
     \<lparr>info_description = ''Fungal disease causing orange-brown pustules on leaf surfaces.'',
      info_treatment = ''Remove infected parts, ensure good ventilation, apply copper-based fungicide.'',
      info_severity = Some High\<rparr>"
| "diseaseInfo Anthracnose =
     \<lparr>info_description = ''Fungal disease causing dark, sunken lesions on leaves and stems.'',
      info_treatment = ''Prune affected areas, improve drainage, apply systemic fungicide treatment.'',
      info_severity = Some High\<rparr>"
| "diseaseInfo Sunburn =
     \<lparr>info_description = ''Damage from excessive direct sunlight causing brown or white patches.'',
      info_treatment = ''Move to partial shade, gradually reintroduce to sunlight, remove damaged parts.'',
      info_severity = Some Low\<rparr>"

record KeywordSet =
  strong :: "jsstring list"
  weak :: "jsstring list"

fun keywords_tab :: "Disease \<Rightarrow> KeywordSet" where
  "keywords_tab AloeRust =
     \<lparr>strong = map js [''rust'', ''aloerust'', ''pustule'', ''pustules'', ''uredinia'', ''rusty''],
      weak = map js [''orange'', ''brownpustule'', ''orange-pustule'']\<rparr>"
| "keywords_tab Anthracnose =
     \<lparr>strong = map js [''anthracnose'', ''colletotrichum'', ''sunken-lesion'', ''sunkenlesion'',
        ''sunken'', ''lesion''],
      weak = map js [''darklesion'', ''blacklesion'', ''blackspot'']\<rparr>"
| "keywords_tab LeafSpot =
     \<lparr>strong = map js [''leafspot'', ''leaf-spot'', ''leaf_spot'', ''leaf spot'', ''spot'', ''spots''],
      weak = map js [''speckle'', ''speckles'', ''freckle'', ''freckles'']\<rparr>"
| "keywords_tab Sunburn =
     \<lparr>strong = map js [''sunburn'', ''sunscald'', ''sun-scald'', ''scorch'', ''scorched'',
        ''sun scald''],
      weak = map js [''heatdamage'', ''heat-damage'', ''scald'']\<rparr>"
| "keywords_tab Healthy =
     \<lparr>strong = map js [''healthy'', ''normal'', ''control''],
      weak = map js [''green'', ''ok'', ''good'']\<rparr>"

definition priority :: "Disease list" where
  "priority = [AloeRust, Anthracnose, LeafSpot, Sunburn, Healthy]"

section \<open>The keyword scorer\<close>

text \<open>
  Numbers are modelled as real numbers.  A score is a sum of at most six times 1.0 and
  at most four times 0.4, and the rounding of \<open>scoreToConfidence\<close> is applied to values
  that lie at least 1/30 away from a rounding boundary, so the comparisons and the rounded
  results of the source are those of exact arithmetic.
\<close>

record DebugMatch =
  strongMatches :: "jsstring list"
  weakMatches :: "jsstring list"
  score :: real

definition STRONG_WEIGHT :: real where
  "STRONG_WEIGHT = 1.0"

definition WEAK_WEIGHT :: real where
  "WEAK_WEIGHT = 0.4"

text \<open>
  The closure \<open>check\<close> of \<open>debugAnalyze\<close>, with the token list and the compact string it
  captures as arguments.
\<close>

definition check :: "jsstring list \<Rightarrow> jsstring \<Rightarrow> jsstring \<Rightarrow> bool" where
  "check toks cpt kw =
     (let kwNorm = filter is_alnum (toLowerCase kw)
      in if kwNorm = [] then False
         else if trim (filter (\<lambda>c. is_alnum c \<or> is_space c) (toLowerCase kw)) \<in> set toks then True
         else if str_includes cpt kwNorm then True
         else False)"

text \<open>
  One of the two loops over a keyword list: a keyword that passes the check is pushed on
  the list of matches and its weight is added to the score.
\<close>

fun match_loop ::
  "(jsstring \<Rightarrow> bool) \<Rightarrow> real \<Rightarrow> jsstring list \<Rightarrow> jsstring list \<Rightarrow> real \<Rightarrow> jsstring list \<times> real"
where
  "match_loop chk w [] ms sc = (ms, sc)"
| "match_loop chk w (k # ks) ms sc =
     (if chk k then match_loop chk w ks (ms @ [k]) (sc + w) else match_loop chk w ks ms sc)"

text \<open>The body of the loop over \<open>diseaseClasses\<close>: the record stored for one category.\<close>

definition matchDisease :: "NormalizedName \<Rightarrow> Disease \<Rightarrow> DebugMatch" where
  "matchDisease n disease =
     (let kws = keywords_tab disease;
          chk = check (tokens n) (compact_s n);
          s = match_loop chk STRONG_WEIGHT (strong kws) [] 0;
          w = match_loop chk WEAK_WEIGHT (weak kws) [] (snd s)
      in \<lparr>strongMatches = fst s, weakMatches = fst w, score = snd w\<rparr>)"

text \<open>
  The object \<open>candidates\<close>, as the list of its entries in insertion order, which is the
  order of \<^verbatim>\<open>Object.entries\<close>.
\<close>

definition buildCandidates :: "NormalizedName \<Rightarrow> (Disease \<times> DebugMatch) list" where
  "buildCandidates n = map (\<lambda>disease. (disease, matchDisease n disease)) diseaseClasses"

section \<open>The selector\<close>

text \<open>
  The second half of \<open>debugAnalyze\<close>, in three steps: the candidates with a strong
  match, the choice among them, and the score read back from \<open>candidates\<close>.
\<close>

definition diseaseCandidates :: "(Disease \<times> DebugMatch) list \<Rightarrow> (Disease \<times> real) list" where
  "diseaseCandidates cands =
     map (\<lambda>(d, m). (d, score m))
       (filter (\<lambda>(d, m). d \<noteq> Healthy \<and> length (strongMatches m) > 0) cands)"

text \<open>
  The choice among the candidates.  \<^verbatim>\<open>sort((a, b) => b.score - a.score)\<close> is a stable
  sort by decreasing score; the loop over \<open>priority\<close> stops at the first category of
  \<open>topDiseases\<close>, and \<open>None\<close> is the \<^verbatim>\<open>undefined\<close> that \<open>chosen\<close> keeps otherwise.
\<close>

definition chooseDisease :: "(Disease \<times> real) list \<Rightarrow> Disease option" where
  "chooseDisease dcs =
     (if length dcs = 0 then Some Healthy
      else
        (let sortedCands = sort_key (\<lambda>c. - snd c) dcs;
             topScore = snd (hd sortedCands);
             topDiseases = map fst (filter (\<lambda>d. snd d = topScore) sortedCands)
         in find (\<lambda>p. p \<in> set topDiseases) priority))"

text \<open>\<^verbatim>\<open>candidates[chosen]?.score ?? 0\<close>.\<close>

definition score_of :: "(Disease \<times> DebugMatch) list \<Rightarrow> Disease \<Rightarrow> real" where
  "score_of cands d = (case map_of cands d of None \<Rightarrow> 0 | Some m \<Rightarrow> score m)"

record DebugResult =
  filename :: jsstring
  candidates :: "(Disease \<times> DebugMatch) list"
  chosen :: Disease
  topScore :: real

definition debugAnalyze :: "jsstring option \<Rightarrow> DebugResult" where
  "debugAnalyze imageName =
     (let n = normalizeName imageName;
          cands = buildCandidates n;
          c = (case chooseDisease (diseaseCandidates cands) of None \<Rightarrow> Healthy | Some p \<Rightarrow> p)
      in \<lparr>filename = base n, candidates = cands, chosen = c, topScore = score_of cands c\<rparr>)"

section \<open>Confidence and prediction\<close>

text \<open>
  \<^verbatim>\<open>Math.round\<close>: the nearest integer, a half going up.  \<open>MAX0\<close> is the constant
  \<open>MAX\<close> of the source.
\<close>

definition Math_round :: "real \<Rightarrow> int" where
  "Math_round x = \<lfloor>x + 1 / 2\<rfloor>"

definition scoreToConfidence :: "real \<Rightarrow> real" where
  "scoreToConfidence s =
     (let MAX0 = 3.0;
          normalized = min (s / MAX0) 1;
          confidence = 0.55 + normalized * (0.98 - 0.55)
      in real_of_int (Math_round (confidence * 100)) / 100)"

record ModelPrediction =
  diagnosis :: Disease
  confidence :: real
  severity :: "Severity option"
  isHealthy :: bool
  description :: string
  treatment :: string

definition predictFromImageName :: "jsstring option \<Rightarrow> ModelPrediction" where
  "predictFromImageName imageName =
     (let debug = debugAnalyze imageName;
          c = chosen debug;
          diseaseData = diseaseInfo c;
          chosenScore = score_of (candidates debug) c
      in \<lparr>diagnosis = c,
          confidence = scoreToConfidence chosenScore,
          severity = info_severity diseaseData,
          isHealthy = (c = Healthy),
          description = info_description diseaseData,
          treatment = info_treatment diseaseData\<rparr>)"

section \<open>Notions used in the statements\<close>

text \<open>
  The compact form of a keyword: the keyword in lower case with everything but letters
  and digits removed.  It is the value of the variable \<open>kwNorm\<close> of \<open>check\<close>.
\<close>

definition kCompact :: "jsstring \<Rightarrow> jsstring" where
  "kCompact k = filter is_alnum (toLowerCase k)"

text \<open>The position of a category in \<open>priority\<close>.\<close>

definition priority_rank :: "Disease \<Rightarrow> nat" where
  "priority_rank d = length (takeWhile (\<lambda>p. p \<noteq> d) priority)"

text \<open>
  An eligible candidate: a category other than Healthy whose record has a strong match.
\<close>

definition eligible :: "jsstring option \<Rightarrow> Disease \<Rightarrow> bool" where
  "eligible raw d = (d \<noteq> Healthy \<and> strongMatches (matchDisease (normalizeName raw) d) \<noteq> [])"

text \<open>The score in the record of a category.\<close>

definition score_for :: "jsstring option \<Rightarrow> Disease \<Rightarrow> real" where
  "score_for raw d = score (matchDisease (normalizeName raw) d)"

section \<open>Substrings and splitting\<close>

lemmas char_defs = is_space_def is_alnum_def is_sep_def lower_unit_def

lemma str_includes_iff: "str_includes s k \<longleftrightarrow> (\<exists>p q. s = p @ k @ q)"
proof (induction s)
  case Nil
  show ?case by auto
next
  case (Cons c cs)
  show ?case
  proof
    assume "str_includes (c # cs) k"
    then consider "prefix k (c # cs)" | "str_includes cs k" by auto
    then show "\<exists>p q. c # cs = p @ k @ q"
    proof cases
      case 1
      then obtain q where "c # cs = k @ q" by (auto simp: prefix_def)
      then have "c # cs = [] @ k @ q" by simp
      then show ?thesis by blast
    next
      case 2
      with Cons obtain p q where "cs = p @ k @ q" by blast
      then have "c # cs = (c # p) @ k @ q" by simp
      then show ?thesis by blast
    qed
  next
    assume "\<exists>p q. c # cs = p @ k @ q"
    then obtain p q where pq: "c # cs = p @ k @ q" by blast
    show "str_includes (c # cs) k"
    proof (cases p)
      case Nil
      with pq have "prefix k (c # cs)" by (auto simp: prefix_def)
      then show ?thesis by simp
    next
      case (Cons a p')
      with pq have "cs = p' @ k @ q" by simp
      with Cons.IH have "str_includes cs k" by blast
      then show ?thesis by simp
    qed
  qed
qed

lemma split_ws_unfold:
  "split_ws s =
     (if dropWhile (\<lambda>c. \<not> is_space c) s = [] then [takeWhile (\<lambda>c. \<not> is_space c) s]
      else takeWhile (\<lambda>c. \<not> is_space c) s
           # split_ws (dropWhile is_space (dropWhile (\<lambda>c. \<not> is_space c) s)))"
  by (subst split_ws.simps) (simp only: Let_def)

lemma split_ws_Nil: "split_ws [] = [[]]"
  by (simp add: split_ws.simps)

lemma split_ws_space: "is_space c \<Longrightarrow> split_ws (c # cs) = [] # split_ws (dropWhile is_space cs)"
  by (subst split_ws.simps) simp

lemma split_ws_not_Nil: "split_ws s \<noteq> []"
  by (subst split_ws.simps) (simp add: Let_def)

lemma split_ws_char:
  assumes "\<not> is_space c"
  shows "split_ws (c # cs) = (c # hd (split_ws cs)) # tl (split_ws cs)"
proof -
  let ?tok = "takeWhile (\<lambda>c. \<not> is_space c) cs"
  let ?rest = "dropWhile (\<lambda>c. \<not> is_space c) cs"
  have a: "split_ws (c # cs) =
      (if ?rest = [] then [c # ?tok] else (c # ?tok) # split_ws (dropWhile is_space ?rest))"
    using assms by (subst split_ws.simps) (simp add: Let_def)
  have b: "split_ws cs = (if ?rest = [] then [?tok] else ?tok # split_ws (dropWhile is_space ?rest))"
    by (subst split_ws.simps) (simp add: Let_def)
  show ?thesis
    unfolding a b by simp
qed

lemma split_ws_char_case:
  "\<not> is_space c \<Longrightarrow> split_ws (c # cs) = (case split_ws cs of [] \<Rightarrow> [[c]] | t # ts \<Rightarrow> (c # t) # ts)"
  using split_ws_not_Nil [of cs] by (simp add: split_ws_char split: list.split)

lemmas split_ws_eval = split_ws_Nil split_ws_space split_ws_char_case

lemma filter_dropWhile_space:
  "filter (\<lambda>c. \<not> is_space c) (dropWhile is_space xs) = filter (\<lambda>c. \<not> is_space c) xs"
  by (induction xs) auto

lemma filter_takeWhile_nonspace:
  "filter (\<lambda>c. \<not> is_space c) (takeWhile (\<lambda>c. \<not> is_space c) xs) = takeWhile (\<lambda>c. \<not> is_space c) xs"
  by (induction xs) auto

lemma concat_split_ws: "concat (split_ws s) = filter (\<lambda>c. \<not> is_space c) s"
proof (induction s rule: split_ws.induct)
  case (1 s)
  let ?P = "\<lambda>c. \<not> is_space c"
  let ?tok = "takeWhile ?P s"
  let ?rest = "dropWhile ?P s"
  have split: "filter ?P s = ?tok @ filter ?P ?rest"
  proof -
    have "filter ?P s = filter ?P (?tok @ ?rest)"
      by (simp only: takeWhile_dropWhile_id)
    also have "\<dots> = filter ?P ?tok @ filter ?P ?rest"
      by (simp only: filter_append)
    finally show ?thesis
      by (simp only: filter_takeWhile_nonspace)
  qed
  show ?case
  proof (cases "?rest = []")
    case True
    then have "concat (split_ws s) = ?tok"
      by (subst split_ws_unfold) simp
    with True split show ?thesis
      by (simp only: filter.simps append_Nil2)
  next
    case False
    then have "concat (split_ws s) = ?tok @ concat (split_ws (dropWhile is_space ?rest))"
      by (subst split_ws_unfold) (simp only: if_False concat.simps)
    also have "concat (split_ws (dropWhile is_space ?rest)) = filter ?P (dropWhile is_space ?rest)"
      using 1 [OF refl refl False] .
    also have "filter ?P (dropWhile is_space ?rest) = filter ?P ?rest"
      by (rule filter_dropWhile_space)
    finally show ?thesis
      using split by (simp only:)
  qed
qed

lemma split_ws_no_space: "t \<in> set (split_ws s) \<Longrightarrow> c \<in> set t \<Longrightarrow> \<not> is_space c"
proof (induction s rule: split_ws.induct)
  case (1 s)
  let ?tok = "takeWhile (\<lambda>c. \<not> is_space c) s"
  let ?rest = "dropWhile (\<lambda>c. \<not> is_space c) s"
  show ?case
  proof (cases "?rest = []")
    case True
    then have "split_ws s = [?tok]" by (subst split_ws_unfold) simp
    with 1(2,3) show ?thesis by (auto dest: set_takeWhileD)
  next
    case False
    then have sp: "split_ws s = ?tok # split_ws (dropWhile is_space ?rest)"
      by (subst split_ws_unfold) (simp only: if_False)
    with 1(2) consider "t = ?tok" | "t \<in> set (split_ws (dropWhile is_space ?rest))" by auto
    then show ?thesis
    proof cases
      case 1
      with \<open>c \<in> set t\<close> show ?thesis by (auto dest: set_takeWhileD)
    next
      case 2
      from 1(1) [OF refl refl False 2 \<open>c \<in> set t\<close>] show ?thesis .
    qed
  qed
qed

section \<open>Trimming and cleaning\<close>

lemma alnum_not_space: "is_alnum c \<Longrightarrow> \<not> is_space c"
  by (auto simp: is_alnum_def is_space_def)

lemma alnum_not_sep: "is_alnum c \<Longrightarrow> \<not> is_sep c"
  by (auto simp: is_alnum_def is_sep_def)

lemma trim_decomp:
  "\<exists>a b. xs = a @ trim xs @ b \<and> (\<forall>c\<in>set a. is_space c) \<and> (\<forall>c\<in>set b. is_space c)"
proof -
  let ?ys = "dropWhile is_space xs"
  let ?b = "rev (takeWhile is_space (rev ?ys))"
  have "trim xs @ ?b = rev (takeWhile is_space (rev ?ys) @ dropWhile is_space (rev ?ys))"
    by (simp only: trim_def rev_append)
  also have "\<dots> = ?ys"
    by (simp only: takeWhile_dropWhile_id rev_rev_ident)
  finally have "takeWhile is_space xs @ trim xs @ ?b = takeWhile is_space xs @ ?ys"
    by (simp only:)
  then have "takeWhile is_space xs @ trim xs @ ?b = xs"
    by (simp only: takeWhile_dropWhile_id)
  then have "xs = takeWhile is_space xs @ trim xs @ ?b"
    by (rule sym)
  moreover have "\<forall>c\<in>set (takeWhile is_space xs). is_space c"
    by (auto dest: set_takeWhileD)
  moreover have "\<forall>c\<in>set ?b. is_space c"
    by (auto dest: set_takeWhileD)
  ultimately show ?thesis
    by blast
qed

lemma filter_alnum_spaces: "\<forall>c\<in>set a. is_space c \<Longrightarrow> filter is_alnum a = []"
  by (induction a) (auto dest: alnum_not_space)

lemma filter_alnum_trim: "filter is_alnum (trim xs) = filter is_alnum xs"
proof -
  obtain a b where ab: "xs = a @ trim xs @ b" "\<forall>c\<in>set a. is_space c" "\<forall>c\<in>set b. is_space c"
    using trim_decomp by blast
  have "filter is_alnum xs = filter is_alnum (a @ trim xs @ b)"
    by (rule arg_cong [OF ab(1)])
  also have "\<dots> = filter is_alnum (trim xs)"
    by (simp add: filter_alnum_spaces [OF ab(2)] filter_alnum_spaces [OF ab(3)])
  finally show ?thesis by (rule sym)
qed

lemma set_trim_subset: "set (trim xs) \<subseteq> set xs"
proof -
  obtain a b where "xs = a @ trim xs @ b"
    using trim_decomp by blast
  then have "set xs = set (a @ trim xs @ b)"
    by (rule arg_cong)
  then show ?thesis by auto
qed

text \<open>A trimmed text without white space, made of letters, digits and white space only,
  is the text with everything but letters and digits removed.\<close>

lemma trim_token_eq:
  assumes "\<forall>c\<in>set xs. is_alnum c \<or> is_space c" and "\<forall>c\<in>set (trim xs). \<not> is_space c"
  shows "trim xs = filter is_alnum xs"
proof -
  have "\<forall>c\<in>set (trim xs). is_alnum c"
    using assms set_trim_subset [of xs] by blast
  then have "filter is_alnum (trim xs) = trim xs"
    by (simp add: filter_id_conv)
  then show ?thesis
    by (simp add: filter_alnum_trim)
qed

lemma filter_alnum_replace_seps: "filter is_alnum (replace_seps xs) = filter is_alnum xs"
proof (induction xs rule: replace_seps.induct)
  case 1
  show ?case by simp
next
  case (2 c cs)
  have drop: "filter is_alnum (dropWhile is_sep cs) = filter is_alnum cs"
    by (induction cs) (auto dest: alnum_not_sep)
  have sp: "\<not> is_alnum 0x20"
    by (simp add: is_alnum_def)
  show ?case
  proof (cases "is_sep c")
    case True
    then have "\<not> is_alnum c" using alnum_not_sep by blast
    with True 2 drop sp show ?thesis by simp
  next
    case False
    with 2 show ?thesis by simp
  qed
qed

lemma filter_alnum_filter:
  "filter is_alnum (filter (\<lambda>c. is_alnum c \<or> is_space c) xs) = filter is_alnum xs"
  by (induction xs) auto

lemma space_not_special:
  "is_space c \<Longrightarrow> c \<noteq> 0x2F \<and> c \<noteq> 0x3F \<and> c \<noteq> 0x23 \<and> c \<noteq> 0x25 \<and> \<not> is_sep c \<and> lower_unit c = [c]"
  by (auto simp: is_space_def is_sep_def lower_unit_def)

lemma normalize_text_spaces:
  assumes "list_all is_space r"
  shows "normalize_text r = []"
proof -
  from assms have sp: "\<forall>c\<in>set r. is_space c"
    by (simp add: list_all_iff)
  have low: "toLowerCase r = r"
    using sp by (induction r) (simp_all add: toLowerCase_def space_not_special)
  have seps: "replace_seps r = r"
    using sp by (induction r) (simp_all add: space_not_special)
  have f: "filter (\<lambda>c. is_alnum c \<or> is_space c) r = r"
    using sp by (simp add: filter_id_conv)
  have d: "dropWhile is_space r = []"
    by (rule iffD2 [OF dropWhile_eq_Nil_conv sp])
  have "normalize_text r = trim r"
    by (simp only: normalize_text_def low seps f)
  also have "\<dots> = []"
    by (simp only: trim_def d rev.simps dropWhile.simps)
  finally show ?thesis .
qed

section \<open>Paths, queries and escapes\<close>

lemma Decode_no_percent: "0x25 \<notin> set s \<Longrightarrow> Decode 0 [] s = Some s"
  by (induction s) auto

lemma basename_no_slash: "0x2F \<notin> set f \<Longrightarrow> basename f = f"
proof -
  assume "0x2F \<notin> set f"
  then have a: "\<forall>c\<in>set (rev f). c \<noteq> 0x2F"
    by auto
  then have d: "dropWhile (\<lambda>c. c = 0x2F) (rev f) = rev f"
    by (cases "rev f") auto
  from a have t: "takeWhile (\<lambda>c. c \<noteq> 0x2F) (rev f) = rev f"
    by (simp add: takeWhile_eq_all_conv)
  show ?thesis
    unfolding basename_def by (simp only: d t rev_rev_ident)
qed

lemma basename_last_segment:
  assumes "f \<noteq> []" and "0x2F \<notin> set f"
  shows "basename (p @ 0x2F # f) = f"
proof -
  from assms(1) obtain y ys where r: "rev f = y # ys"
    by (cases "rev f") auto
  with assms(2) have y: "y \<noteq> 0x2F"
    by (metis list.set_intros(1) set_rev)
  have "dropWhile (\<lambda>c. c = 0x2F) (rev (p @ 0x2F # f)) = rev f @ 0x2F # rev p"
    using y by (simp add: r)
  moreover have "takeWhile (\<lambda>c. c \<noteq> 0x2F) (rev f @ 0x2F # rev p) = rev f"
    using assms(2) by (subst takeWhile_append2) auto
  ultimately show ?thesis
    by (simp add: basename_def)
qed

lemma cut_at_mark:
  "c = 0x3F \<or> c = 0x23 \<Longrightarrow>
     takeWhile (\<lambda>c. c \<noteq> 0x23) (takeWhile (\<lambda>c. c \<noteq> 0x3F) (pre @ c # rest)) =
     takeWhile (\<lambda>c. c \<noteq> 0x23) (takeWhile (\<lambda>c. c \<noteq> 0x3F) pre)"
  by (induction pre) auto

lemma cut_no_mark:
  "\<forall>c\<in>set s. c \<noteq> 0x3F \<and> c \<noteq> 0x23 \<Longrightarrow>
     takeWhile (\<lambda>c. c \<noteq> 0x23) (takeWhile (\<lambda>c. c \<noteq> 0x3F) s) = s"
  by (induction s) auto

text \<open>The normalizer on a string, the empty one included.\<close>

lemma normalizeName_Some:
  "normalizeName (Some raw) =
     (let base0 = basename (takeWhile (\<lambda>c. c \<noteq> 0x23) (takeWhile (\<lambda>c. c \<noteq> 0x3F) raw));
          base1 = (case decodeURIComponent base0 of None \<Rightarrow> base0 | Some d \<Rightarrow> d)
      in \<lparr>base = base1, normalized = normalize_text base1,
          compact_s = filter (\<lambda>c. \<not> is_space c) (normalize_text base1),
          tokens = filter (\<lambda>t. t \<noteq> []) (split_ws (normalize_text base1))\<rparr>)"
proof (cases "raw = []")
  case True
  then show ?thesis
    by (simp add: normalizeName_def basename_def decodeURIComponent_def normalize_text_def
        toLowerCase_def trim_def split_ws_Nil)
next
  case False
  then show ?thesis
    by (simp add: normalizeName_def Let_def)
qed

lemma base_file_name:
  assumes "f \<noteq> []"
    and "\<forall>c\<in>set f. c \<noteq> 0x2F \<and> c \<noteq> 0x3F \<and> c \<noteq> 0x23 \<and> c \<noteq> 0x25"
    and "\<forall>c\<in>set p. c \<noteq> 0x3F \<and> c \<noteq> 0x23"
    and "q = [] \<or> hd q = 0x3F \<or> hd q = 0x23"
  shows "base (normalizeName (Some (p @ 0x2F # f @ q))) = f"
proof -
  let ?cut = "\<lambda>s. takeWhile (\<lambda>c. c \<noteq> 0x23) (takeWhile (\<lambda>c. c \<noteq> (0x3F::nat)) s)"
  have pf: "\<forall>c\<in>set (p @ 0x2F # f). c \<noteq> 0x3F \<and> c \<noteq> 0x23"
    using assms(2,3) by auto
  have "?cut (p @ 0x2F # f @ q) = p @ 0x2F # f"
  proof (cases q)
    case Nil
    then show ?thesis
      using cut_no_mark [OF pf] by simp
  next
    case (Cons c rest)
    with assms(4) have "c = 0x3F \<or> c = 0x23"
      by simp
    from cut_at_mark [OF this, of "p @ 0x2F # f" rest] cut_no_mark [OF pf] Cons
    show ?thesis
      by simp
  qed
  moreover have "basename (p @ 0x2F # f) = f"
    using assms(1,2) by (intro basename_last_segment) auto
  moreover have "decodeURIComponent f = Some f"
    unfolding decodeURIComponent_def using assms(2) by (intro Decode_no_percent) auto
  ultimately show ?thesis
    by (simp add: normalizeName_Some Let_def)
qed

lemma normalizeName_spaces:
  assumes "list_all is_space r"
  shows "normalizeName (Some r) = \<lparr>base = r, normalized = [], compact_s = [], tokens = []\<rparr>"
proof -
  from assms have sp: "\<forall>c\<in>set r. is_space c"
    by (simp add: list_all_iff)
  then have no: "\<forall>c\<in>set r. c \<noteq> 0x3F \<and> c \<noteq> 0x23" "0x2F \<notin> set r" "0x25 \<notin> set r"
    using space_not_special by blast+
  have "basename (takeWhile (\<lambda>c. c \<noteq> 0x23) (takeWhile (\<lambda>c. c \<noteq> 0x3F) r)) = r"
    by (simp add: cut_no_mark [OF no(1)] basename_no_slash [OF no(2)])
  moreover have "decodeURIComponent r = Some r"
    unfolding decodeURIComponent_def by (rule Decode_no_percent [OF no(3)])
  ultimately show ?thesis
    by (simp add: normalizeName_Some normalize_text_spaces [OF assms] split_ws_Nil)
qed

section \<open>The keyword check\<close>

lemma tokens_props:
  assumes "t \<in> set (tokens (normalizeName raw))"
  shows "t \<noteq> []" and "\<forall>c\<in>set t. \<not> is_space c" and "str_includes (compact_s (normalizeName raw)) t"
proof -
  from assms obtain r where raw: "raw = Some r" "r \<noteq> []"
    by (cases raw) (auto simp: normalizeName_def split: if_splits)
  define N where "N = normalized (normalizeName raw)"
  have tk: "tokens (normalizeName raw) = filter (\<lambda>t. t \<noteq> []) (split_ws N)"
    and cp: "compact_s (normalizeName raw) = filter (\<lambda>c. \<not> is_space c) N"
    using raw by (simp_all add: normalizeName_def N_def Let_def)
  from assms tk have t: "t \<in> set (split_ws N)" and ne: "t \<noteq> []"
    by auto
  show "t \<noteq> []" by (rule ne)
  show "\<forall>c\<in>set t. \<not> is_space c"
    using split_ws_no_space [OF t] by blast
  from t obtain xs ys where "split_ws N = xs @ t # ys"
    by (auto dest: split_list)
  then have "concat (split_ws N) = concat xs @ t @ concat ys"
    by simp
  then have "compact_s (normalizeName raw) = concat xs @ t @ concat ys"
    by (simp add: cp concat_split_ws)
  then show "str_includes (compact_s (normalizeName raw)) t"
    unfolding str_includes_iff by blast
qed

lemma check_unfold:
  "check toks cpt kw \<longleftrightarrow>
     kCompact kw \<noteq> [] \<and>
     (trim (filter (\<lambda>c. is_alnum c \<or> is_space c) (toLowerCase kw)) \<in> set toks
      \<or> str_includes cpt (kCompact kw))"
  by (simp add: check_def kCompact_def Let_def)

lemma check_iff_compact:
  "check (tokens (normalizeName raw)) (compact_s (normalizeName raw)) kw \<longleftrightarrow>
     kCompact kw \<noteq> [] \<and> str_includes (compact_s (normalizeName raw)) (kCompact kw)"
proof -
  let ?t = "trim (filter (\<lambda>c. is_alnum c \<or> is_space c) (toLowerCase kw))"
  have "str_includes (compact_s (normalizeName raw)) (kCompact kw)"
    if "?t \<in> set (tokens (normalizeName raw))"
  proof -
    have ns: "\<forall>c\<in>set ?t. \<not> is_space c"
      using tokens_props(2) [OF that] .
    have al: "\<forall>c\<in>set (filter (\<lambda>c. is_alnum c \<or> is_space c) (toLowerCase kw)). is_alnum c \<or> is_space c"
      by simp
    have "?t = filter is_alnum (filter (\<lambda>c. is_alnum c \<or> is_space c) (toLowerCase kw))"
      using al ns by (rule trim_token_eq)
    also have "\<dots> = kCompact kw"
      by (simp only: kCompact_def filter_alnum_filter)
    finally have "?t = kCompact kw" .
    with tokens_props(3) [OF that] show ?thesis
      by (simp only:)
  qed
  then show ?thesis
    unfolding check_unfold by blast
qed

lemma normalize_text_token:
  assumes "normalize_text kw \<in> set (tokens (normalizeName raw))"
  shows "str_includes (compact_s (normalizeName raw)) (kCompact kw)"
proof -
  let ?xs = "filter (\<lambda>c. is_alnum c \<or> is_space c) (replace_seps (toLowerCase kw))"
  have nt: "normalize_text kw = trim ?xs"
    by (simp only: normalize_text_def)
  have ns: "\<forall>c\<in>set (trim ?xs). \<not> is_space c"
    using tokens_props(2) [OF assms] by (simp only: nt)
  have al: "\<forall>c\<in>set ?xs. is_alnum c \<or> is_space c"
    by simp
  have "trim ?xs = filter is_alnum ?xs"
    using al ns by (rule trim_token_eq)
  also have "\<dots> = filter is_alnum (replace_seps (toLowerCase kw))"
    by (simp only: filter_alnum_filter)
  also have "\<dots> = kCompact kw"
    by (simp only: kCompact_def filter_alnum_replace_seps)
  finally have "normalize_text kw = kCompact kw"
    by (simp only: nt)
  with tokens_props(3) [OF assms] show ?thesis
    by (simp only:)
qed

lemma check_empty: "\<not> check [] [] kw"
  by (simp add: check_def Let_def)

lemma check_same_compact:
  assumes "compact_s (normalizeName a) = compact_s (normalizeName b)"
  shows "check (tokens (normalizeName a)) (compact_s (normalizeName a)) =
         check (tokens (normalizeName b)) (compact_s (normalizeName b))"
proof
  fix k
  have "check (tokens (normalizeName a)) (compact_s (normalizeName a)) k \<longleftrightarrow>
      kCompact k \<noteq> [] \<and> str_includes (compact_s (normalizeName a)) (kCompact k)"
    by (rule check_iff_compact)
  also have "\<dots> \<longleftrightarrow> kCompact k \<noteq> [] \<and> str_includes (compact_s (normalizeName b)) (kCompact k)"
    by (simp only: assms)
  also have "\<dots> \<longleftrightarrow> check (tokens (normalizeName b)) (compact_s (normalizeName b)) k"
    by (rule check_iff_compact [symmetric])
  finally show "check (tokens (normalizeName a)) (compact_s (normalizeName a)) k =
      check (tokens (normalizeName b)) (compact_s (normalizeName b)) k" .
qed

lemma kCompact_Cons_alnum: "is_alnum c \<Longrightarrow> kCompact (c # cs) \<noteq> []"
  by (auto simp: kCompact_def toLowerCase_def lower_unit_def is_alnum_def)

lemma configured_kCompact:
  "k \<in> set (strong (keywords_tab d)) \<union> set (weak (keywords_tab d)) \<Longrightarrow> kCompact k \<noteq> []"
  by (cases d) (auto simp: js_def kCompact_Cons_alnum is_alnum_def)

section \<open>The records of the categories\<close>

lemma match_loop_eq:
  "match_loop chk w ks ms sc = (ms @ filter chk ks, sc + w * real (length (filter chk ks)))"
  by (induction ks arbitrary: ms sc) (simp_all add: algebra_simps)

lemma matchDisease_strong:
  "strongMatches (matchDisease n d) = filter (check (tokens n) (compact_s n)) (strong (keywords_tab d))"
  by (simp add: matchDisease_def match_loop_eq Let_def)

lemma matchDisease_weak:
  "weakMatches (matchDisease n d) = filter (check (tokens n) (compact_s n)) (weak (keywords_tab d))"
  by (simp add: matchDisease_def match_loop_eq Let_def)

lemma matchDisease_score:
  "score (matchDisease n d) =
     real (length (strongMatches (matchDisease n d))) + 0.4 * real (length (weakMatches (matchDisease n d)))"
  by (simp add: matchDisease_def match_loop_eq Let_def STRONG_WEIGHT_def WEAK_WEIGHT_def)

lemma score_nonneg: "0 \<le> score (matchDisease n d)"
  by (simp add: matchDisease_score)

lemma matchDisease_empty:
  assumes "tokens n = []" and "compact_s n = []"
  shows "strongMatches (matchDisease n d) = []" and "weakMatches (matchDisease n d) = []"
  by (simp_all add: matchDisease_strong matchDisease_weak assms check_empty)

lemma matchDisease_same_compact:
  assumes "compact_s (normalizeName a) = compact_s (normalizeName b)"
  shows "matchDisease (normalizeName a) d = matchDisease (normalizeName b) d"
  unfolding matchDisease_def check_same_compact [OF assms] ..

lemma map_of_buildCandidates: "map_of (buildCandidates n) d = Some (matchDisease n d)"
  by (cases d) (simp_all add: buildCandidates_def diseaseClasses_def)

lemma score_of_buildCandidates: "score_of (buildCandidates n) d = score (matchDisease n d)"
  by (simp add: score_of_def map_of_buildCandidates)

lemma set_diseaseCandidates:
  "set (diseaseCandidates (buildCandidates n)) =
     {(d, score (matchDisease n d)) | d. d \<noteq> Healthy \<and> strongMatches (matchDisease n d) \<noteq> []}"
proof -
  have "set diseaseClasses = UNIV"
    using Disease.exhaust by (auto simp: diseaseClasses_def)
  then have "set (buildCandidates n) = {(d, matchDisease n d) | d. True}"
    by (auto simp: buildCandidates_def)
  then show ?thesis
    by (auto simp: diseaseCandidates_def)
qed

lemma diseaseCandidates_eval:
  "diseaseCandidates (buildCandidates n) =
     map (\<lambda>d. (d, score (matchDisease n d)))
       (filter (\<lambda>d. d \<noteq> Healthy \<and> strongMatches (matchDisease n d) \<noteq> []) diseaseClasses)"
  by (simp add: diseaseCandidates_def buildCandidates_def diseaseClasses_def)

section \<open>The choice of the selector\<close>

lemma priority_all: "d \<in> set priority"
  by (cases d) (simp_all add: priority_def)

lemma find_first_rank:
  "find P xs = Some c \<Longrightarrow> P d \<Longrightarrow>
     length (takeWhile (\<lambda>p. p \<noteq> c) xs) \<le> length (takeWhile (\<lambda>p. p \<noteq> d) xs)"
proof (induction xs)
  case Nil
  then show ?case by simp
next
  case (Cons x xs)
  show ?case
  proof (cases "P x")
    case True
    with Cons.prems have "c = x" by simp
    then show ?thesis by simp
  next
    case False
    with Cons.prems have f: "find P xs = Some c" by simp
    then have "P c" by (auto simp: find_Some_iff)
    with False Cons.prems have "x \<noteq> c" "x \<noteq> d" by auto
    with Cons.IH [OF f Cons.prems(2)] show ?thesis by simp
  qed
qed

lemma sort_key_hd_least:
  assumes "xs \<noteq> []" and "x \<in> set xs"
  shows "f (hd (sort_key f xs)) \<le> f x"
proof -
  let ?s = "sort_key f xs"
  from assms(1) have "?s \<noteq> []"
    by (metis length_sort list.size(3) length_0_conv)
  then obtain y ys where s: "?s = y # ys"
    by (cases ?s) auto
  have "sorted (map f ?s)"
    by (rule sorted_sort_key)
  with s have "\<forall>z\<in>set ys. f y \<le> f z"
    by simp
  moreover from assms(2) have "x \<in> set ?s"
    by simp
  ultimately show ?thesis
    using s by auto
qed

lemma chooseDisease_Nil: "chooseDisease [] = Some Healthy"
  by (simp add: chooseDisease_def)

lemma chooseDisease_top:
  assumes "dcs \<noteq> []"
  shows "\<exists>c s. chooseDisease dcs = Some c \<and> (c, s) \<in> set dcs
           \<and> (\<forall>(d, t)\<in>set dcs. t \<le> s)
           \<and> (\<forall>(d, t)\<in>set dcs. t = s \<longrightarrow> priority_rank c \<le> priority_rank d)"
proof -
  let ?srt = "sort_key (\<lambda>c. - snd c) dcs"
  let ?top = "snd (hd ?srt)"
  let ?tops = "map fst (filter (\<lambda>d. snd d = ?top) ?srt)"
  let ?P = "\<lambda>p. p \<in> set ?tops"
  have ch: "chooseDisease dcs = find ?P priority"
    using assms by (simp add: chooseDisease_def Let_def)
  have set_srt: "set ?srt = set dcs"
    by simp
  from assms have "?srt \<noteq> []"
    by (metis length_sort list.size(3) length_0_conv)
  then have hd_in: "hd ?srt \<in> set dcs"
    using set_srt hd_in_set by blast
  have max: "t \<le> ?top" if "(d, t) \<in> set dcs" for d t
    using sort_key_hd_least [OF assms that, of "\<lambda>c. - snd c"] by simp
  have tops: "?P d \<longleftrightarrow> (d, ?top) \<in> set dcs" for d
    by (auto simp: set_srt image_iff)
  have "?P (fst (hd ?srt))"
    unfolding tops using hd_in by simp
  then have "\<exists>p\<in>set priority. ?P p"
    using priority_all by blast
  then obtain c where c: "find ?P priority = Some c"
    by (cases "find ?P priority") (auto simp: find_None_iff)
  then have Pc: "?P c"
    by (auto simp: find_Some_iff)
  have "priority_rank c \<le> priority_rank d" if "(d, ?top) \<in> set dcs" for d
    unfolding priority_rank_def using find_first_rank [OF c, of d] that tops by blast
  with c Pc max show ?thesis
    unfolding ch tops by (intro exI [of _ c] exI [of _ ?top]) auto
qed

section \<open>The confidence mapping\<close>

lemma scoreToConfidence_unfold:
  "scoreToConfidence s = real_of_int \<lfloor>55 + 43 * min (s / 3) 1 + 1 / 2\<rfloor> / 100"
  by (simp add: scoreToConfidence_def Math_round_def Let_def algebra_simps)

lemma scoreToConfidence_mono: "s \<le> t \<Longrightarrow> scoreToConfidence s \<le> scoreToConfidence t"
proof -
  assume st: "s \<le> t"
  then have "min (s / 3) 1 \<le> min (t / 3) 1"
    by (simp add: min_def)
  then have "55 + 43 * min (s / 3) 1 + 1 / 2 \<le> 55 + 43 * min (t / 3) 1 + 1 / 2"
    by simp
  then have "\<lfloor>55 + 43 * min (s / 3) 1 + 1 / 2\<rfloor> \<le> \<lfloor>55 + 43 * min (t / 3) 1 + 1 / 2\<rfloor>"
    by (rule floor_mono)
  then show ?thesis
    unfolding scoreToConfidence_unfold by (simp add: divide_right_mono)
qed

lemma scoreToConfidence_zero: "scoreToConfidence 0 = 0.55"
proof -
  have "\<lfloor>(111::real) / 2\<rfloor> = 55"
    by (simp add: floor_eq_iff)
  then show ?thesis
    unfolding scoreToConfidence_unfold by simp
qed

lemma scoreToConfidence_sat: "3 \<le> s \<Longrightarrow> scoreToConfidence s = 0.98"
proof -
  assume "3 \<le> s"
  then have m: "min (s / 3) 1 = 1"
    by (simp add: min_def)
  have "\<lfloor>(197::real) / 2\<rfloor> = 98"
    by (simp add: floor_eq_iff)
  then show ?thesis
    unfolding scoreToConfidence_unfold m by simp
qed

lemma scoreToConfidence_range:
  assumes "0 \<le> s"
  shows "0.55 \<le> scoreToConfidence s" and "scoreToConfidence s \<le> 0.98"
proof -
  show "0.55 \<le> scoreToConfidence s"
    using scoreToConfidence_mono [OF assms] by (simp add: scoreToConfidence_zero)
  have "scoreToConfidence s \<le> scoreToConfidence (max s 3)"
    by (rule scoreToConfidence_mono) simp
  also have "\<dots> = 0.98"
    by (rule scoreToConfidence_sat) simp
  finally show "scoreToConfidence s \<le> 0.98" .
qed

lemma scoreToConfidence_one: "scoreToConfidence 1 = 0.69"
proof -
  have "\<lfloor>(419::real) / 6\<rfloor> = 69"
    by (simp add: floor_eq_iff)
  then show ?thesis
    unfolding scoreToConfidence_unfold by simp
qed

section \<open>The fields of the results\<close>

lemma candidates_debugAnalyze: "candidates (debugAnalyze raw) = buildCandidates (normalizeName raw)"
  by (simp add: debugAnalyze_def Let_def)

lemma chosen_debugAnalyze:
  "chosen (debugAnalyze raw) =
     (case chooseDisease (diseaseCandidates (buildCandidates (normalizeName raw))) of
        None \<Rightarrow> Healthy | Some p \<Rightarrow> p)"
  by (simp add: debugAnalyze_def Let_def)

lemma topScore_debugAnalyze:
  "topScore (debugAnalyze raw) = score (matchDisease (normalizeName raw) (chosen (debugAnalyze raw)))"
  by (simp add: debugAnalyze_def Let_def score_of_buildCandidates)

lemma diagnosis_predict: "diagnosis (predictFromImageName raw) = chosen (debugAnalyze raw)"
  by (simp add: predictFromImageName_def Let_def)

lemma confidence_predict:
  "confidence (predictFromImageName raw) =
     scoreToConfidence (score (matchDisease (normalizeName raw) (chosen (debugAnalyze raw))))"
  by (simp add: predictFromImageName_def Let_def candidates_debugAnalyze score_of_buildCandidates)

lemma severity_predict:
  "severity (predictFromImageName raw) = info_severity (diseaseInfo (chosen (debugAnalyze raw)))"
  by (simp add: predictFromImageName_def Let_def)

lemma isHealthy_predict: "isHealthy (predictFromImageName raw) \<longleftrightarrow> chosen (debugAnalyze raw) = Healthy"
  by (simp add: predictFromImageName_def Let_def)

lemma no_candidates_Healthy:
  assumes "\<forall>d. d \<noteq> Healthy \<longrightarrow> strongMatches (matchDisease (normalizeName raw) d) = []"
  shows "chosen (debugAnalyze raw) = Healthy"
proof -
  have "set (diseaseCandidates (buildCandidates (normalizeName raw))) = {}"
    unfolding set_diseaseCandidates using assms by auto
  then have "diseaseCandidates (buildCandidates (normalizeName raw)) = []"
    by simp
  then show ?thesis
    by (simp add: chosen_debugAnalyze chooseDisease_Nil)
qed

lemma eligible_candidates:
  "d \<in> fst ` set (diseaseCandidates (buildCandidates (normalizeName raw))) \<longleftrightarrow> eligible raw d"
  by (auto simp: set_diseaseCandidates eligible_def image_iff)

lemma chosen_eligible:
  assumes "eligible raw e"
  shows "eligible raw (chosen (debugAnalyze raw))"
    and "eligible raw d \<Longrightarrow> score_for raw d \<le> score_for raw (chosen (debugAnalyze raw))"
    and "eligible raw d \<Longrightarrow> score_for raw d = score_for raw (chosen (debugAnalyze raw)) \<Longrightarrow>
           priority_rank (chosen (debugAnalyze raw)) \<le> priority_rank d"
proof -
  let ?dcs = "diseaseCandidates (buildCandidates (normalizeName raw))"
  have mem: "(x, t) \<in> set ?dcs \<longleftrightarrow> eligible raw x \<and> t = score_for raw x" for x t
    by (auto simp: set_diseaseCandidates eligible_def score_for_def)
  from assms have "(e, score_for raw e) \<in> set ?dcs"
    by (simp add: mem)
  then have "?dcs \<noteq> []"
    by auto
  from chooseDisease_top [OF this] obtain c s where c:
    "chooseDisease ?dcs = Some c" "(c, s) \<in> set ?dcs"
    "\<forall>(x, t)\<in>set ?dcs. t \<le> s"
    "\<forall>(x, t)\<in>set ?dcs. t = s \<longrightarrow> priority_rank c \<le> priority_rank x"
    by blast
  have ch: "chosen (debugAnalyze raw) = c"
    by (simp add: chosen_debugAnalyze c(1))
  from c(2) have el: "eligible raw c" and s: "s = score_for raw c"
    by (simp_all add: mem)
  show "eligible raw (chosen (debugAnalyze raw))"
    by (simp add: ch el)
  show "score_for raw d \<le> score_for raw (chosen (debugAnalyze raw))" if "eligible raw d"
  proof -
    from that have "(d, score_for raw d) \<in> set ?dcs"
      by (simp add: mem)
    with c(3) show ?thesis
      unfolding ch s by blast
  qed
  show "priority_rank (chosen (debugAnalyze raw)) \<le> priority_rank d"
    if "eligible raw d" "score_for raw d = score_for raw (chosen (debugAnalyze raw))"
  proof -
    from that(1) have "(d, score_for raw d) \<in> set ?dcs"
      by (simp add: mem)
    with c(4) that(2) show ?thesis
      unfolding ch s by blast
  qed
qed

lemma chosen_same_compact:
  assumes "compact_s (normalizeName a) = compact_s (normalizeName b)"
  shows "chosen (debugAnalyze a) = chosen (debugAnalyze b)"
proof -
  have "buildCandidates (normalizeName a) = buildCandidates (normalizeName b)"
    by (simp add: buildCandidates_def matchDisease_same_compact [OF assms])
  then show ?thesis
    by (simp add: chosen_debugAnalyze)
qed

section \<open>Evaluation on file names\<close>

lemmas eval_norm = normalizeName_def js_def basename_def decodeURIComponent_def normalize_text_def
  toLowerCase_def trim_def char_defs split_ws_eval Let_def

lemmas eval_match = matchDisease_def check_def STRONG_WEIGHT_def WEAK_WEIGHT_def js_def
  toLowerCase_def trim_def char_defs Let_def

lemmas eval_chosen = chosen_debugAnalyze diseaseCandidates_eval diseaseClasses_def
  chooseDisease_def priority_def Let_def

lemma norm_leaf_spot_01:
  "normalizeName (Some (js ''leaf_spot_01.png'')) =
     \<lparr>base = js ''leaf_spot_01.png'', normalized = js ''leaf spot 01 png'',
      compact_s = js ''leafspot01png'', tokens = map js [''leaf'', ''spot'', ''01'', ''png'']\<rparr>"
  by (simp add: eval_norm)

lemma match_leaf_spot_01:
  "matchDisease (normalizeName (Some (js ''leaf_spot_01.png''))) AloeRust =
     \<lparr>strongMatches = [], weakMatches = [], score = 0\<rparr>"
  "matchDisease (normalizeName (Some (js ''leaf_spot_01.png''))) Healthy =
     \<lparr>strongMatches = [], weakMatches = [], score = 0\<rparr>"
  "matchDisease (normalizeName (Some (js ''leaf_spot_01.png''))) Anthracnose =
     \<lparr>strongMatches = [], weakMatches = [], score = 0\<rparr>"
  "matchDisease (normalizeName (Some (js ''leaf_spot_01.png''))) LeafSpot =
     \<lparr>strongMatches = map js [''leafspot'', ''leaf-spot'', ''leaf_spot'', ''leaf spot'', ''spot''], weakMatches = [], score = 5\<rparr>"
  "matchDisease (normalizeName (Some (js ''leaf_spot_01.png''))) Sunburn =
     \<lparr>strongMatches = [], weakMatches = [], score = 0\<rparr>"
  unfolding norm_leaf_spot_01 by (simp_all add: eval_match)

lemma chosen_leaf_spot_01: "chosen (debugAnalyze (Some (js ''leaf_spot_01.png''))) = LeafSpot"
  by (simp add: eval_chosen match_leaf_spot_01 del: set_filter)

lemma norm_img_rust_01:
  "normalizeName (Some (js ''img_rust_01.jpg'')) =
     \<lparr>base = js ''img_rust_01.jpg'', normalized = js ''img rust 01 jpg'',
      compact_s = js ''imgrust01jpg'', tokens = map js [''img'', ''rust'', ''01'', ''jpg'']\<rparr>"
  by (simp add: eval_norm)

lemma match_img_rust_01:
  "matchDisease (normalizeName (Some (js ''img_rust_01.jpg''))) AloeRust =
     \<lparr>strongMatches = map js [''rust''], weakMatches = [], score = 1\<rparr>"
  "matchDisease (normalizeName (Some (js ''img_rust_01.jpg''))) Healthy =
     \<lparr>strongMatches = [], weakMatches = [], score = 0\<rparr>"
  "matchDisease (normalizeName (Some (js ''img_rust_01.jpg''))) Anthracnose =
     \<lparr>strongMatches = [], weakMatches = [], score = 0\<rparr>"
  "matchDisease (normalizeName (Some (js ''img_rust_01.jpg''))) LeafSpot =
     \<lparr>strongMatches = [], weakMatches = [], score = 0\<rparr>"
  "matchDisease (normalizeName (Some (js ''img_rust_01.jpg''))) Sunburn =
     \<lparr>strongMatches = [], weakMatches = [], score = 0\<rparr>"
  unfolding norm_img_rust_01 by (simp_all add: eval_match)

lemma chosen_img_rust_01: "chosen (debugAnalyze (Some (js ''img_rust_01.jpg''))) = AloeRust"
  by (simp add: eval_chosen match_img_rust_01 del: set_filter)

lemma norm_imgrust01:
  "normalizeName (Some (js ''imgrust01.jpg'')) =
     \<lparr>base = js ''imgrust01.jpg'', normalized = js ''imgrust01 jpg'',
      compact_s = js ''imgrust01jpg'', tokens = map js [''imgrust01'', ''jpg'']\<rparr>"
  by (simp add: eval_norm)

lemma match_imgrust01:
  "matchDisease (normalizeName (Some (js ''imgrust01.jpg''))) AloeRust =
     \<lparr>strongMatches = map js [''rust''], weakMatches = [], score = 1\<rparr>"
  "matchDisease (normalizeName (Some (js ''imgrust01.jpg''))) Healthy =
     \<lparr>strongMatches = [], weakMatches = [], score = 0\<rparr>"
  "matchDisease (normalizeName (Some (js ''imgrust01.jpg''))) Anthracnose =
     \<lparr>strongMatches = [], weakMatches = [], score = 0\<rparr>"
  "matchDisease (normalizeName (Some (js ''imgrust01.jpg''))) LeafSpot =
     \<lparr>strongMatches = [], weakMatches = [], score = 0\<rparr>"
  "matchDisease (normalizeName (Some (js ''imgrust01.jpg''))) Sunburn =
     \<lparr>strongMatches = [], weakMatches = [], score = 0\<rparr>"
  unfolding norm_imgrust01 by (simp_all add: eval_match)

lemma chosen_imgrust01: "chosen (debugAnalyze (Some (js ''imgrust01.jpg''))) = AloeRust"
  by (simp add: eval_chosen match_imgrust01 del: set_filter)

lemma norm_healthy:
  "normalizeName (Some (js ''healthy.jpg'')) =
     \<lparr>base = js ''healthy.jpg'', normalized = js ''healthy jpg'',
      compact_s = js ''healthyjpg'', tokens = map js [''healthy'', ''jpg'']\<rparr>"
  by (simp add: eval_norm)

lemma match_healthy:
  "matchDisease (normalizeName (Some (js ''healthy.jpg''))) AloeRust =
     \<lparr>strongMatches = [], weakMatches = [], score = 0\<rparr>"
  "matchDisease (normalizeName (Some (js ''healthy.jpg''))) Healthy =
     \<lparr>strongMatches = map js [''healthy''], weakMatches = [], score = 1\<rparr>"
  "matchDisease (normalizeName (Some (js ''healthy.jpg''))) Anthracnose =
     \<lparr>strongMatches = [], weakMatches = [], score = 0\<rparr>"
  "matchDisease (normalizeName (Some (js ''healthy.jpg''))) LeafSpot =
     \<lparr>strongMatches = [], weakMatches = [], score = 0\<rparr>"
  "matchDisease (normalizeName (Some (js ''healthy.jpg''))) Sunburn =
     \<lparr>strongMatches = [], weakMatches = [], score = 0\<rparr>"
  unfolding norm_healthy by (simp_all add: eval_match)

lemma chosen_healthy: "chosen (debugAnalyze (Some (js ''healthy.jpg''))) = Healthy"
  by (simp add: eval_chosen match_healthy del: set_filter)

lemma norm_rust_spot:
  "normalizeName (Some (js ''rust_spot.jpg'')) =
     \<lparr>base = js ''rust_spot.jpg'', normalized = js ''rust spot jpg'',
      compact_s = js ''rustspotjpg'', tokens = map js [''rust'', ''spot'', ''jpg'']\<rparr>"
  by (simp add: eval_norm)

lemma match_rust_spot:
  "matchDisease (normalizeName (Some (js ''rust_spot.jpg''))) AloeRust =
     \<lparr>strongMatches = map js [''rust''], weakMatches = [], score = 1\<rparr>"
  "matchDisease (normalizeName (Some (js ''rust_spot.jpg''))) Healthy =
     \<lparr>strongMatches = [], weakMatches = [], score = 0\<rparr>"
  "matchDisease (normalizeName (Some (js ''rust_spot.jpg''))) Anthracnose =
     \<lparr>strongMatches = [], weakMatches = [], score = 0\<rparr>"
  "matchDisease (normalizeName (Some (js ''rust_spot.jpg''))) LeafSpot =
     \<lparr>strongMatches = map js [''spot''], weakMatches = [], score = 1\<rparr>"
  "matchDisease (normalizeName (Some (js ''rust_spot.jpg''))) Sunburn =
     \<lparr>strongMatches = [], weakMatches = [], score = 0\<rparr>"
  unfolding norm_rust_spot by (simp_all add: eval_match)

lemma chosen_rust_spot: "chosen (debugAnalyze (Some (js ''rust_spot.jpg''))) = AloeRust"
  by (simp add: eval_chosen match_rust_spot del: set_filter)

lemma norm_aloe_01:
  "normalizeName (Some (js ''aloe_01.jpg'')) =
     \<lparr>base = js ''aloe_01.jpg'', normalized = js ''aloe 01 jpg'',
      compact_s = js ''aloe01jpg'', tokens = map js [''aloe'', ''01'', ''jpg'']\<rparr>"
  by (simp add: eval_norm)

lemma match_aloe_01:
  "matchDisease (normalizeName (Some (js ''aloe_01.jpg''))) AloeRust =
     \<lparr>strongMatches = [], weakMatches = [], score = 0\<rparr>"
  "matchDisease (normalizeName (Some (js ''aloe_01.jpg''))) Healthy =
     \<lparr>strongMatches = [], weakMatches = [], score = 0\<rparr>"
  "matchDisease (normalizeName (Some (js ''aloe_01.jpg''))) Anthracnose =
     \<lparr>strongMatches = [], weakMatches = [], score = 0\<rparr>"
  "matchDisease (normalizeName (Some (js ''aloe_01.jpg''))) LeafSpot =
     \<lparr>strongMatches = [], weakMatches = [], score = 0\<rparr>"
  "matchDisease (normalizeName (Some (js ''aloe_01.jpg''))) Sunburn =
     \<lparr>strongMatches = [], weakMatches = [], score = 0\<rparr>"
  unfolding norm_aloe_01 by (simp_all add: eval_match)

section \<open>The claims\<close>

text \<open>
  C1, as amended.  When no category other than Healthy has a strong match, the diagnosis
  is Healthy and the confidence is the one of the score of Healthy itself; it is 0.55 when
  no keyword of Healthy matches either.
\<close>

theorem C1_healthy_fallback:
  assumes "\<forall>d. d \<noteq> Healthy \<longrightarrow> strongMatches (matchDisease (normalizeName raw) d) = []"
  shows "diagnosis (predictFromImageName raw) = Healthy
    \<and> confidence (predictFromImageName raw) =
        scoreToConfidence (score (matchDisease (normalizeName raw) Healthy))
    \<and> (strongMatches (matchDisease (normalizeName raw) Healthy) = []
         \<and> weakMatches (matchDisease (normalizeName raw) Healthy) = []
        \<longrightarrow> confidence (predictFromImageName raw) = 0.55)"
proof -
  have ch: "chosen (debugAnalyze raw) = Healthy"
    using assms by (rule no_candidates_Healthy)
  have "score (matchDisease (normalizeName raw) Healthy) = 0"
    if "strongMatches (matchDisease (normalizeName raw) Healthy) = []"
      and "weakMatches (matchDisease (normalizeName raw) Healthy) = []"
    using that by (simp add: matchDisease_score)
  then show ?thesis
    by (auto simp: diagnosis_predict confidence_predict ch scoreToConfidence_zero)
qed

theorem C1_healthy_fallback_witness:
  "strongMatches (matchDisease (normalizeName (Some (js ''aloe_01.jpg''))) Healthy) = []
   \<and> weakMatches (matchDisease (normalizeName (Some (js ''aloe_01.jpg''))) Healthy) = []
   \<and> diagnosis (predictFromImageName (Some (js ''aloe_01.jpg''))) = Healthy
   \<and> confidence (predictFromImageName (Some (js ''aloe_01.jpg''))) = 0.55"
proof -
  have "\<forall>d. d \<noteq> Healthy \<longrightarrow>
      strongMatches (matchDisease (normalizeName (Some (js ''aloe_01.jpg''))) d) = []"
  proof (intro allI impI)
    fix d :: Disease
    assume "d \<noteq> Healthy"
    then show "strongMatches (matchDisease (normalizeName (Some (js ''aloe_01.jpg''))) d) = []"
      by (cases d) (simp_all add: match_aloe_01)
  qed
  from C1_healthy_fallback [OF this] show ?thesis
    by (simp add: match_aloe_01)
qed

text \<open>
  C1 as stated fails: for \<^verbatim>\<open>healthy.jpg\<close> no other category has a strong match and the
  diagnosis is Healthy, but the keyword \<^verbatim>\<open>healthy\<close> gives Healthy the score 1 and the
  confidence is 0.69.
\<close>

theorem C1_counterexample:
  "strongMatches (matchDisease (normalizeName (Some (js ''healthy.jpg''))) AloeRust) = []
   \<and> strongMatches (matchDisease (normalizeName (Some (js ''healthy.jpg''))) Anthracnose) = []
   \<and> strongMatches (matchDisease (normalizeName (Some (js ''healthy.jpg''))) LeafSpot) = []
   \<and> strongMatches (matchDisease (normalizeName (Some (js ''healthy.jpg''))) Sunburn) = []
   \<and> diagnosis (predictFromImageName (Some (js ''healthy.jpg''))) = Healthy
   \<and> confidence (predictFromImageName (Some (js ''healthy.jpg''))) = 0.69
   \<and> confidence (predictFromImageName (Some (js ''healthy.jpg''))) \<noteq> 0.55"
  by (simp add: diagnosis_predict confidence_predict chosen_healthy match_healthy
      scoreToConfidence_one)

text \<open>
  C2, as amended.  For \<^verbatim>\<open>leaf_spot_01.png\<close> the diagnosis is Leaf Spot; five strong
  keywords of Leaf Spot match, so the score of the winner is 5 and the confidence is 0.98.
\<close>

theorem C2_leaf_spot_01:
  "diagnosis (predictFromImageName (Some (js ''leaf_spot_01.png''))) = LeafSpot
   \<and> strongMatches (matchDisease (normalizeName (Some (js ''leaf_spot_01.png''))) LeafSpot) =
       map js [''leafspot'', ''leaf-spot'', ''leaf_spot'', ''leaf spot'', ''spot'']
   \<and> topScore (debugAnalyze (Some (js ''leaf_spot_01.png''))) = 5
   \<and> confidence (predictFromImageName (Some (js ''leaf_spot_01.png''))) = 0.98"
  by (simp add: diagnosis_predict confidence_predict topScore_debugAnalyze chosen_leaf_spot_01
      match_leaf_spot_01 scoreToConfidence_sat)

text \<open>
  C2 as stated fails: the confidence for \<^verbatim>\<open>leaf_spot_01.png\<close> is 0.98, which is not
  near 0.70, and the score of the winner is 5, not 1.
\<close>

theorem C2_counterexample:
  "\<not> (diagnosis (predictFromImageName (Some (js ''leaf_spot_01.png''))) = LeafSpot
      \<and> 1 \<le> topScore (debugAnalyze (Some (js ''leaf_spot_01.png'')))
      \<and> \<bar>confidence (predictFromImageName (Some (js ''leaf_spot_01.png''))) - 0.70\<bar> \<le> 0.1)"
  by (simp add: diagnosis_predict confidence_predict topScore_debugAnalyze chosen_leaf_spot_01
      match_leaf_spot_01 scoreToConfidence_sat)

text \<open>
  C3.  The record of a category in \<open>candidates\<close> is the one computed for it, and a
  category is among the candidates of the selector exactly when it is not Healthy and
  its record has a strong match.  When there is such a category, the chosen one is such a
  category, no such category has a higher score, and among those with the same score none
  comes earlier in the order Aloe Rust, Anthracnose, Leaf Spot, Sunburn, Healthy.  When
  there is none, Healthy is chosen.
\<close>

theorem C3_selector:
  "map_of (candidates (debugAnalyze raw)) d = Some (matchDisease (normalizeName raw) d)
   \<and> (d \<in> fst ` set (diseaseCandidates (candidates (debugAnalyze raw))) \<longleftrightarrow>
      d \<noteq> Healthy \<and> strongMatches (matchDisease (normalizeName raw) d) \<noteq> [])
   \<and> priority = [AloeRust, Anthracnose, LeafSpot, Sunburn, Healthy]
   \<and> (eligible raw e \<longrightarrow>
        eligible raw (chosen (debugAnalyze raw))
        \<and> (eligible raw d \<longrightarrow>
             score_for raw d \<le> score_for raw (chosen (debugAnalyze raw))
             \<and> (score_for raw d = score_for raw (chosen (debugAnalyze raw)) \<longrightarrow>
                  priority_rank (chosen (debugAnalyze raw)) \<le> priority_rank d)))
   \<and> ((\<forall>x. \<not> eligible raw x) \<longrightarrow> chosen (debugAnalyze raw) = Healthy)"
proof -
  have "chosen (debugAnalyze raw) = Healthy" if "\<forall>x. \<not> eligible raw x"
    using that by (intro no_candidates_Healthy) (auto simp: eligible_def)
  then show ?thesis
    using chosen_eligible(1) [of raw e] chosen_eligible(2,3) [of raw e d] eligible_candidates [of d raw]
    by (auto simp: candidates_debugAnalyze map_of_buildCandidates eligible_def priority_def)
qed

theorem C3_selector_witness:
  "eligible (Some (js ''rust_spot.jpg'')) AloeRust
   \<and> eligible (Some (js ''rust_spot.jpg'')) LeafSpot
   \<and> score_for (Some (js ''rust_spot.jpg'')) LeafSpot = score_for (Some (js ''rust_spot.jpg'')) AloeRust
   \<and> chosen (debugAnalyze (Some (js ''rust_spot.jpg''))) = AloeRust
   \<and> priority_rank (chosen (debugAnalyze (Some (js ''rust_spot.jpg'')))) \<le> priority_rank LeafSpot
   \<and> chosen (debugAnalyze (Some (js ''aloe_01.jpg''))) = Healthy"
proof -
  have none: "\<forall>x. \<not> eligible (Some (js ''aloe_01.jpg'')) x"
  proof
    fix x
    show "\<not> eligible (Some (js ''aloe_01.jpg'')) x"
      by (cases x) (simp_all add: eligible_def match_aloe_01)
  qed
  have el: "eligible (Some (js ''rust_spot.jpg'')) AloeRust" "eligible (Some (js ''rust_spot.jpg'')) LeafSpot"
    by (simp_all add: eligible_def match_rust_spot)
  have sc: "score_for (Some (js ''rust_spot.jpg'')) LeafSpot = score_for (Some (js ''rust_spot.jpg'')) AloeRust"
    by (simp add: score_for_def match_rust_spot)
  from C3_selector [where raw = "Some (js ''rust_spot.jpg'')" and d = LeafSpot and e = AloeRust] el sc
  have "priority_rank (chosen (debugAnalyze (Some (js ''rust_spot.jpg'')))) \<le> priority_rank LeafSpot"
    by (simp add: chosen_rust_spot)
  moreover from C3_selector [where raw = "Some (js ''aloe_01.jpg'')" and d = Healthy and e = Healthy] none
  have "chosen (debugAnalyze (Some (js ''aloe_01.jpg''))) = Healthy"
    by blast
  ultimately show ?thesis
    using el sc by (simp add: chosen_rust_spot)
qed

text \<open>
  C4.  A keyword whose compact form is not empty passes the check exactly when the token
  list contains the keyword cleaned as the file name is, or the compact string contains
  the compact form of the keyword.  Both \<^verbatim>\<open>img_rust_01.jpg\<close>, where \<^verbatim>\<open>rust\<close> is a
  token, and \<^verbatim>\<open>imgrust01.jpg\<close>, where it is only a substring, are diagnosed as Aloe
  Rust with the strong match \<^verbatim>\<open>rust\<close>.
\<close>

theorem C4_keyword_match:
  "(kCompact k \<noteq> [] \<longrightarrow>
      (check (tokens (normalizeName raw)) (compact_s (normalizeName raw)) k \<longleftrightarrow>
         normalize_text k \<in> set (tokens (normalizeName raw))
         \<or> str_includes (compact_s (normalizeName raw)) (kCompact k)))
   \<and> diagnosis (predictFromImageName (Some (js ''img_rust_01.jpg''))) = AloeRust
   \<and> strongMatches (matchDisease (normalizeName (Some (js ''img_rust_01.jpg''))) AloeRust) = [js ''rust'']
   \<and> js ''rust'' \<in> set (tokens (normalizeName (Some (js ''img_rust_01.jpg''))))
   \<and> diagnosis (predictFromImageName (Some (js ''imgrust01.jpg''))) = AloeRust
   \<and> strongMatches (matchDisease (normalizeName (Some (js ''imgrust01.jpg''))) AloeRust) = [js ''rust'']
   \<and> js ''rust'' \<notin> set (tokens (normalizeName (Some (js ''imgrust01.jpg''))))
   \<and> str_includes (compact_s (normalizeName (Some (js ''imgrust01.jpg'')))) (js ''rust'')"
proof -
  have 1: "kCompact k \<noteq> [] \<longrightarrow>
      (check (tokens (normalizeName raw)) (compact_s (normalizeName raw)) k \<longleftrightarrow>
         normalize_text k \<in> set (tokens (normalizeName raw))
         \<or> str_includes (compact_s (normalizeName raw)) (kCompact k))"
    using normalize_text_token [of k raw] by (auto simp: check_iff_compact)
  have 2: "diagnosis (predictFromImageName (Some (js ''img_rust_01.jpg''))) = AloeRust"
    "diagnosis (predictFromImageName (Some (js ''imgrust01.jpg''))) = AloeRust"
    by (simp_all add: diagnosis_predict chosen_img_rust_01 chosen_imgrust01)
  have 3: "strongMatches (matchDisease (normalizeName (Some (js ''img_rust_01.jpg''))) AloeRust) = [js ''rust'']"
    "strongMatches (matchDisease (normalizeName (Some (js ''imgrust01.jpg''))) AloeRust) = [js ''rust'']"
    by (simp_all add: match_img_rust_01 match_imgrust01)
  have 4: "js ''rust'' \<in> set (tokens (normalizeName (Some (js ''img_rust_01.jpg''))))"
    "js ''rust'' \<notin> set (tokens (normalizeName (Some (js ''imgrust01.jpg''))))"
    "str_includes (compact_s (normalizeName (Some (js ''imgrust01.jpg'')))) (js ''rust'')"
    unfolding norm_img_rust_01 norm_imgrust01 by (simp_all add: js_def)
  from 1 2 3 4 show ?thesis
    by (intro conjI)
qed

theorem C4_keyword_match_witness:
  "kCompact (js ''rust'') \<noteq> []
   \<and> normalize_text (js ''rust'') \<in> set (tokens (normalizeName (Some (js ''img_rust_01.jpg''))))
   \<and> check (tokens (normalizeName (Some (js ''img_rust_01.jpg''))))
         (compact_s (normalizeName (Some (js ''img_rust_01.jpg'')))) (js ''rust'')"
proof -
  have k: "kCompact (js ''rust'') \<noteq> []"
    by (rule configured_kCompact [of _ AloeRust]) simp
  have t: "normalize_text (js ''rust'') \<in> set (tokens (normalizeName (Some (js ''img_rust_01.jpg''))))"
    unfolding norm_img_rust_01
    by (simp add: js_def normalize_text_def toLowerCase_def trim_def char_defs)
  from C4_keyword_match [of "js ''rust''" "Some (js ''img_rust_01.jpg'')"] k t show ?thesis
    by blast
qed

text \<open>
  C5.  The confidence of every prediction lies between 0.55 and 0.98 and is a whole
  number of hundredths.
\<close>

theorem C5_confidence_range:
  "0.55 \<le> confidence (predictFromImageName raw)
   \<and> confidence (predictFromImageName raw) \<le> 0.98
   \<and> (\<exists>k::int. confidence (predictFromImageName raw) = real_of_int k / 100)"
proof -
  have "0 \<le> score (matchDisease (normalizeName raw) (chosen (debugAnalyze raw)))"
    by (rule score_nonneg)
  from scoreToConfidence_range [OF this] show ?thesis
    by (auto simp: confidence_predict scoreToConfidence_unfold)
qed

theorem C5_confidence_range_witness:
  "0.55 \<le> confidence (predictFromImageName (Some (js ''rust_spot.jpg'')))
   \<and> confidence (predictFromImageName (Some (js ''rust_spot.jpg''))) \<le> 0.98
   \<and> (\<exists>k::int. confidence (predictFromImageName (Some (js ''rust_spot.jpg''))) = real_of_int k / 100)"
  using C5_confidence_range [of "Some (js ''rust_spot.jpg'')"] .

text \<open>
  C6.  The confidence does not decrease when a non-negative score grows; the score 0
  gives 0.55 and every score from 3 on gives 0.98.
\<close>

theorem C6_scoreToConfidence:
  "(0 \<le> s \<and> s \<le> t \<longrightarrow> scoreToConfidence s \<le> scoreToConfidence t)
   \<and> scoreToConfidence 0 = 0.55
   \<and> (3 \<le> u \<longrightarrow> scoreToConfidence u = 0.98)"
  by (simp add: scoreToConfidence_mono scoreToConfidence_zero scoreToConfidence_sat)

theorem C6_scoreToConfidence_witness:
  "(0::real) \<le> 1 \<and> (1::real) \<le> 2 \<and> scoreToConfidence 1 \<le> scoreToConfidence 2
   \<and> scoreToConfidence 0 = 0.55 \<and> (3::real) \<le> 5 \<and> scoreToConfidence 5 = 0.98"
  using C6_scoreToConfidence [of 1 2 5] by simp

text \<open>
  C7, as amended.  For \<^verbatim>\<open>a/b/leaf_spot.png?x=1#y\<close> the base is \<^verbatim>\<open>leaf_spot.png\<close>.
  In general the base is the file name that follows the last slash, when the directory
  part has no question mark and no hash sign and the name has none either and no slash
  or percent sign, whatever query or fragment follows.  The text from the first question
  mark or hash sign on is cut off before the last path segment is taken, so it has no
  influence on the result.
\<close>

theorem C7_base_name:
  "base (normalizeName (Some (js ''a/b/leaf_spot.png?x=1#y''))) = js ''leaf_spot.png''
   \<and> (f \<noteq> [] \<and> (\<forall>c\<in>set f. c \<noteq> 0x2F \<and> c \<noteq> 0x3F \<and> c \<noteq> 0x23 \<and> c \<noteq> 0x25)
        \<and> (\<forall>c\<in>set p. c \<noteq> 0x3F \<and> c \<noteq> 0x23) \<and> (q = [] \<or> hd q = 0x3F \<or> hd q = 0x23)
       \<longrightarrow> base (normalizeName (Some (p @ 0x2F # f @ q))) = f)
   \<and> (c = 0x3F \<or> c = 0x23 \<longrightarrow>
        normalizeName (Some (pre @ c # rest)) = normalizeName (Some pre))"
proof -
  have "base (normalizeName (Some (js ''a/b/leaf_spot.png?x=1#y''))) = js ''leaf_spot.png''"
    by (simp add: normalizeName_Some Let_def js_def basename_def decodeURIComponent_def)
  moreover have "normalizeName (Some (pre @ c # rest)) = normalizeName (Some pre)"
    if "c = 0x3F \<or> c = 0x23"
    unfolding normalizeName_Some cut_at_mark [OF that] ..
  ultimately show ?thesis
    using base_file_name [of f p q] by blast
qed

theorem C7_base_name_witness:
  "base (normalizeName (Some (js ''a/b'' @ 0x2F # js ''leaf_spot.png'' @ js ''?x=1#y''))) = js ''leaf_spot.png''
   \<and> normalizeName (Some (js ''a/b/leaf_spot.png'' @ 0x3F # js ''x=1#y'')) =
       normalizeName (Some (js ''a/b/leaf_spot.png''))"
proof -
  have "js ''leaf_spot.png'' \<noteq> []"
    and "\<forall>c\<in>set (js ''leaf_spot.png''). c \<noteq> 0x2F \<and> c \<noteq> 0x3F \<and> c \<noteq> 0x23 \<and> c \<noteq> 0x25"
    and "\<forall>c\<in>set (js ''a/b''). c \<noteq> 0x3F \<and> c \<noteq> 0x23"
    and "js ''?x=1#y'' = [] \<or> hd (js ''?x=1#y'') = 0x3F \<or> hd (js ''?x=1#y'') = 0x23"
    by (simp_all add: js_def)
  with C7_base_name [of "js ''leaf_spot.png''" "js ''a/b''" "js ''?x=1#y''" "0x3F"
      "js ''a/b/leaf_spot.png''" "js ''x=1#y''"]
  show ?thesis
    by blast
qed

text \<open>
  C7 as stated fails where a hash sign is in a directory name: for
  \<^verbatim>\<open>my#1/leaf_spot.png\<close> the base is \<^verbatim>\<open>my\<close>, not the name of the file.
\<close>

theorem C7_counterexample:
  "base (normalizeName (Some (js ''my#1/leaf_spot.png''))) = js ''my''
   \<and> base (normalizeName (Some (js ''my#1/leaf_spot.png''))) \<noteq> js ''leaf_spot.png''"
  by (simp add: normalizeName_Some Let_def js_def basename_def decodeURIComponent_def)

text \<open>
  C8, as amended.  For a null, empty or white-space-only file name the normalized text,
  the compact string and the token list are empty, and the base is the file name itself
  (empty for a null one); no keyword of any category matches, and the diagnosis is
  Healthy.
\<close>

theorem C8_blank_name:
  assumes "raw = None \<or> (\<exists>r. raw = Some r \<and> list_all is_space r)"
  shows "normalizeName raw =
      \<lparr>base = (case raw of None \<Rightarrow> [] | Some r \<Rightarrow> r), normalized = [], compact_s = [], tokens = []\<rparr>
    \<and> strongMatches (matchDisease (normalizeName raw) d) = []
    \<and> weakMatches (matchDisease (normalizeName raw) d) = []
    \<and> diagnosis (predictFromImageName raw) = Healthy"
proof -
  have n: "normalizeName raw =
      \<lparr>base = (case raw of None \<Rightarrow> [] | Some r \<Rightarrow> r), normalized = [], compact_s = [], tokens = []\<rparr>"
    using assms by (auto simp: normalizeName_spaces) (simp add: normalizeName_def)
  then have e: "tokens (normalizeName raw) = []" "compact_s (normalizeName raw) = []"
    by simp_all
  have "chosen (debugAnalyze raw) = Healthy"
    by (rule no_candidates_Healthy) (simp add: matchDisease_empty [OF e])
  then have "diagnosis (predictFromImageName raw) = Healthy"
    by (simp add: diagnosis_predict)
  with n matchDisease_empty [OF e, of d] show ?thesis
    by (intro conjI)
qed

theorem C8_blank_name_witness:
  "list_all is_space (js ''  '')
   \<and> normalizeName (Some (js ''  '')) = \<lparr>base = js ''  '', normalized = [], compact_s = [], tokens = []\<rparr>
   \<and> strongMatches (matchDisease (normalizeName (Some (js ''  ''))) Healthy) = []
   \<and> weakMatches (matchDisease (normalizeName (Some (js ''  ''))) Healthy) = []
   \<and> diagnosis (predictFromImageName (Some (js ''  ''))) = Healthy
   \<and> normalizeName None = \<lparr>base = [], normalized = [], compact_s = [], tokens = []\<rparr>
   \<and> diagnosis (predictFromImageName None) = Healthy"
proof -
  have sp: "list_all is_space (js ''  '')"
    by (simp add: js_def is_space_def)
  then have h: "Some (js ''  '') = None \<or> (\<exists>r. Some (js ''  '') = Some r \<and> list_all is_space r)"
    by simp
  have a: "normalizeName (Some (js ''  '')) =
        \<lparr>base = js ''  '', normalized = [], compact_s = [], tokens = []\<rparr>
      \<and> strongMatches (matchDisease (normalizeName (Some (js ''  ''))) Healthy) = []
      \<and> weakMatches (matchDisease (normalizeName (Some (js ''  ''))) Healthy) = []
      \<and> diagnosis (predictFromImageName (Some (js ''  ''))) = Healthy"
    by (rule C8_blank_name [OF h, of Healthy, unfolded option.case])
  have b: "normalizeName None = \<lparr>base = [], normalized = [], compact_s = [], tokens = []\<rparr>
      \<and> strongMatches (matchDisease (normalizeName None) Healthy) = []
      \<and> weakMatches (matchDisease (normalizeName None) Healthy) = []
      \<and> diagnosis (predictFromImageName None) = Healthy"
    by (rule C8_blank_name [of None Healthy, unfolded option.case]) simp
  from sp a b show ?thesis
    by blast
qed

text \<open>
  C8 as stated fails for a file name of two spaces: its base is the two spaces, not the
  empty string.
\<close>

theorem C8_counterexample:
  "list_all is_space (js ''  '')
   \<and> base (normalizeName (Some (js ''  ''))) = js ''  ''
   \<and> base (normalizeName (Some (js ''  ''))) \<noteq> []"
  by (simp add: normalizeName_Some Let_def js_def is_space_def basename_def decodeURIComponent_def)

text \<open>
  C9.  A prediction is flagged healthy exactly when its severity is null; its severity is
  the one configured for its diagnosis, which is null for Healthy and for no other category.
\<close>

theorem C9_severity:
  "(isHealthy (predictFromImageName raw) \<longleftrightarrow> severity (predictFromImageName raw) = None)
   \<and> severity (predictFromImageName raw) = info_severity (diseaseInfo (diagnosis (predictFromImageName raw)))
   \<and> (info_severity (diseaseInfo d) = None \<longleftrightarrow> d = Healthy)"
proof -
  have sev: "info_severity (diseaseInfo x) = None \<longleftrightarrow> x = Healthy" for x
    by (cases x) simp_all
  show ?thesis
    by (simp add: isHealthy_predict severity_predict diagnosis_predict sev)
qed

theorem C9_severity_witness:
  "isHealthy (predictFromImageName (Some (js ''healthy.jpg'')))
   \<and> severity (predictFromImageName (Some (js ''healthy.jpg''))) = None
   \<and> \<not> isHealthy (predictFromImageName (Some (js ''rust_spot.jpg'')))
   \<and> severity (predictFromImageName (Some (js ''rust_spot.jpg''))) = Some High"
  using C9_severity [of "Some (js ''healthy.jpg'')" Healthy]
    C9_severity [of "Some (js ''rust_spot.jpg'')" AloeRust]
  by (simp add: diagnosis_predict isHealthy_predict chosen_healthy chosen_rust_spot)

text \<open>
  C10.  For a configured keyword the token branch of the check adds nothing: the check
  succeeds exactly when the compact string contains the compact form of the keyword.  So
  two file names with the same compact string get the same diagnosis, score and
  confidence.
\<close>

theorem C10_compact_decides:
  "(k \<in> set (strong (keywords_tab d)) \<union> set (weak (keywords_tab d)) \<longrightarrow>
      (check (tokens (normalizeName raw)) (compact_s (normalizeName raw)) k \<longleftrightarrow>
         str_includes (compact_s (normalizeName raw)) (kCompact k)))
   \<and> (compact_s (normalizeName a) = compact_s (normalizeName b) \<longrightarrow>
        diagnosis (predictFromImageName a) = diagnosis (predictFromImageName b)
        \<and> topScore (debugAnalyze a) = topScore (debugAnalyze b)
        \<and> confidence (predictFromImageName a) = confidence (predictFromImageName b))"
proof -
  have "check (tokens (normalizeName raw)) (compact_s (normalizeName raw)) k \<longleftrightarrow>
      str_includes (compact_s (normalizeName raw)) (kCompact k)"
    if "k \<in> set (strong (keywords_tab d)) \<union> set (weak (keywords_tab d))"
    using configured_kCompact [OF that] by (simp add: check_iff_compact)
  moreover have "diagnosis (predictFromImageName a) = diagnosis (predictFromImageName b)
      \<and> topScore (debugAnalyze a) = topScore (debugAnalyze b)
      \<and> confidence (predictFromImageName a) = confidence (predictFromImageName b)"
    if "compact_s (normalizeName a) = compact_s (normalizeName b)"
    by (simp add: diagnosis_predict confidence_predict topScore_debugAnalyze
        chosen_same_compact [OF that] matchDisease_same_compact [OF that])
  ultimately show ?thesis
    by blast
qed

theorem C10_compact_decides_witness:
  "js ''rust'' \<in> set (strong (keywords_tab AloeRust)) \<union> set (weak (keywords_tab AloeRust))
   \<and> str_includes (compact_s (normalizeName (Some (js ''imgrust01.jpg'')))) (kCompact (js ''rust''))
   \<and> check (tokens (normalizeName (Some (js ''imgrust01.jpg''))))
         (compact_s (normalizeName (Some (js ''imgrust01.jpg'')))) (js ''rust'')
   \<and> compact_s (normalizeName (Some (js ''img_rust_01.jpg''))) =
       compact_s (normalizeName (Some (js ''imgrust01.jpg'')))
   \<and> diagnosis (predictFromImageName (Some (js ''img_rust_01.jpg''))) =
       diagnosis (predictFromImageName (Some (js ''imgrust01.jpg'')))
   \<and> topScore (debugAnalyze (Some (js ''img_rust_01.jpg''))) =
       topScore (debugAnalyze (Some (js ''imgrust01.jpg'')))
   \<and> confidence (predictFromImageName (Some (js ''img_rust_01.jpg''))) =
       confidence (predictFromImageName (Some (js ''imgrust01.jpg'')))"
proof -
  have k: "js ''rust'' \<in> set (strong (keywords_tab AloeRust)) \<union> set (weak (keywords_tab AloeRust))"
    by simp
  have i: "str_includes (compact_s (normalizeName (Some (js ''imgrust01.jpg'')))) (kCompact (js ''rust''))"
    unfolding norm_imgrust01
    by (simp add: js_def kCompact_def toLowerCase_def char_defs)
  have c: "compact_s (normalizeName (Some (js ''img_rust_01.jpg''))) =
      compact_s (normalizeName (Some (js ''imgrust01.jpg'')))"
    by (simp add: norm_img_rust_01 norm_imgrust01)
  from C10_compact_decides [of "js ''rust''" AloeRust "Some (js ''imgrust01.jpg'')"
      "Some (js ''img_rust_01.jpg'')" "Some (js ''imgrust01.jpg'')"] k i c
  show ?thesis
    by blast
qed

end
